theory Spec2Isabelle
  imports Main "HOL-Library.AList" "HOL-Library.Sublist"
begin

section \<open>Strings\<close>

text \<open>
  Python's \<^verbatim>\<open>str.find(sub)\<close>: the lowest index at which \<open>sub\<close> occurs, or \<open>-1\<close>.
\<close>

fun str_find :: "string \<Rightarrow> string \<Rightarrow> int" where
  "str_find [] sub = (if sub = [] then 0 else - 1)"
| "str_find (c # cs) sub =
     (if prefix sub (c # cs) then 0
      else (let r = str_find cs sub in if r < 0 then - 1 else r + 1))"

text \<open>
  Python's \<^verbatim>\<open>str.replace(old, new)\<close>: every occurrence of \<open>old\<close>, scanning from the
  left without overlap, is replaced by \<open>new\<close>; an empty \<open>old\<close> matches before every
  character and at the end.
\<close>

function str_replace :: "string \<Rightarrow> string \<Rightarrow> string \<Rightarrow> string" where
  "str_replace [] old new = (if old = [] then new else [])"
| "str_replace (c # cs) old new =
     (if old = [] then new @ c # str_replace cs old new
      else if prefix old (c # cs) then new @ str_replace (drop (length old) (c # cs)) old new
      else c # str_replace cs old new)"
  by pat_completeness auto
termination
  by (relation "measure (\<lambda>(s, old, new). length s)") auto

section \<open>Name server: address resolution\<close>

definition protocols_m_str :: "(string \<times> string) list" where
  "protocols_m_str =
     [(''iiop:'', ''corbaloc:iiop:''),
      (''ssliop:'', ''corbaloc:ssliop:''),
      (''diop:'', ''corbaloc:diop:''),
      (''shmiop:'', ''corbaloc:shmiop:''),
      (''htiop:'', ''corbaloc:htiop:'')]"

definition protocols_v_str :: "string list" where
  "protocols_v_str = [''http://'', ''https://'', ''ws://'', ''wss://'']"

text \<open>The two \<^verbatim>\<open>for\<close> loops of \<^verbatim>\<open>NameServer._parse_address\<close>; each returns at the first match.\<close>

fun parse_address_m :: "(string \<times> string) list \<Rightarrow> string \<Rightarrow> string option" where
  "parse_address_m [] address = None"
| "parse_address_m ((k, v) # kvs) address =
     (if str_find address k = 0 then Some (str_replace address k v @ ''/NameService'')
      else parse_address_m kvs address)"

fun parse_address_v :: "string list \<Rightarrow> string \<Rightarrow> string option" where
  "parse_address_v [] address = None"
| "parse_address_v (protocol # ps) address =
     (if str_find address protocol = 0 then Some (address @ ''#NameService'')
      else parse_address_v ps address)"

definition p_parse_address :: "string \<Rightarrow> string" where
  "p_parse_address address =
     (case parse_address_m protocols_m_str address of
        Some r \<Rightarrow> r
      | None \<Rightarrow>
          (case parse_address_v protocols_v_str address of
             Some r \<Rightarrow> r
           | None \<Rightarrow> ''corbaloc::'' @ address @ ''/NameService''))"

section \<open>The remote objects\<close>

text \<open>
  Every call into a remote handle either returns or raises; a raised exception is the
  left injection of the result.
\<close>

datatype transient_minor = TRANSIENT_ConnectFailed | TRANSIENT_other nat

datatype exc =
    BAD_PARAM
  | BAD_OPERATION
  | TRANSIENT transient_minor
  | CORBA_other string
  | AttributeError string
  | NotImplementedError
  | FailedToSetConfigurationError string string
  | FailedToAddMasterManagerError
  | FailedToAddSlaveManagerError string string
  | FailedToRemoveMasterManagerError
  | FailedToRemoveSlaveManagerError string string

datatype ReturnCode_t =
  RTC_OK | RTC_ERROR | BAD_PARAMETER | UNSUPPORTED | OUT_OF_RESOURCES | PRECONDITION_NOT_MET

type_synonym nvlist = "(string \<times> string) list"

text \<open>A Python \<^verbatim>\<open>dict\<close> of strings, in insertion order, with distinct keys.\<close>

type_synonym dict = "(string \<times> string) list"

record ComponentProfile =
  instance_name :: string

datatype rtc_obj = RTCObj (get_component_profile: "exc + ComponentProfile")

text \<open>
  The handle \<^verbatim>\<open>_obj\<close> of a manager is modelled by the answers the remote manager gives
  while one operation runs: one field per remote method that the operations below call.
  \<open>get_profile\<close> stands for \<^verbatim>\<open>get_profile().properties\<close>. A manager passed as an
  argument of a remote call is identified by its reference \<open>ior\<close>. The slave managers
  are handles of the same kind, so the remote hierarchy is a finite tree (the source
  notes that rtctree assumes a singly-linked hierarchy of managers).
\<close>

datatype mgr_obj = MgrObj
  (ior: nat)
  (get_components: "exc + rtc_obj list")
  (get_slave_managers: "exc + mgr_obj list")
  (get_profile: "exc + nvlist")
  (get_configuration: "exc + nvlist")
  (get_factory_profiles: "exc + nvlist list")
  (get_loadable_modules: "exc + nvlist list")
  (get_loaded_modules: "exc + nvlist list")
  (set_configuration: "string \<Rightarrow> string \<Rightarrow> exc + ReturnCode_t")
  (add_master_manager: "nat \<Rightarrow> exc + ReturnCode_t")
  (add_save_manager: "nat \<Rightarrow> exc + ReturnCode_t")
  (remove_master_manager: "nat \<Rightarrow> exc + ReturnCode_t")
  (remove_slave_manager: "nat \<Rightarrow> exc + ReturnCode_t")

section \<open>Tree nodes\<close>

text \<open>
  The parent pointer is a back reference that does not own the parent: it carries what
  the code reads through it (\<^verbatim>\<open>is_manager\<close>, \<^verbatim>\<open>name\<close>, \<^verbatim>\<open>object\<close>).
\<close>

datatype parent_ref = DirectoryRef string | ManagerRef string mgr_obj

fun ref_is_manager :: "parent_ref \<Rightarrow> bool" where
  "ref_is_manager (DirectoryRef n) = False"
| "ref_is_manager (ManagerRef n ob) = True"

text \<open>
  A child node is a component leaf or a manager. The fields of \<open>ManagerNode\<close> are the
  fields of the record \<open>manager\<close> below, in the same order.
\<close>

datatype node =
    ComponentNode string "parent_ref option" rtc_obj
  | ManagerNode string "parent_ref option" mgr_obj "(string \<times> node) list"
      "node list option" "dict option" "dict option" "dict list option"
      "dict list option" "dict list option" "node list option" "node list option"

text \<open>
  The state of one \<^verbatim>\<open>Manager\<close> object. A leading underscore of a Python name is
  written \<open>p_\<close>. The cached views are \<open>None\<close> while unfetched.
\<close>

record manager =
  name :: string
  parent :: "parent_ref option"
  p_obj :: mgr_obj
  p_children :: "(string \<times> node) list"
  p_components :: "node list option"
  p_configuration :: "dict option"
  p_profile :: "dict option"
  p_factory_profiles :: "dict list option"
  p_loadable_modules :: "dict list option"
  p_loaded_modules :: "dict list option"
  p_masters :: "node list option"
  p_slaves :: "node list option"

definition to_node :: "manager \<Rightarrow> node" where
  "to_node s = ManagerNode (name s) (parent s) (p_obj s) (p_children s) (p_components s)
     (p_configuration s) (p_profile s) (p_factory_profiles s) (p_loadable_modules s)
     (p_loaded_modules s) (p_masters s) (p_slaves s)"

fun node_name :: "node \<Rightarrow> string" where
  "node_name (ComponentNode n p c) = n"
| "node_name (ManagerNode n p ob ch co cf pr fp lm ld ma sl) = n"

fun is_component :: "node \<Rightarrow> bool" where
  "is_component (ComponentNode n p c) = True"
| "is_component (ManagerNode n p ob ch co cf pr fp lm ld ma sl) = False"

fun is_manager :: "node \<Rightarrow> bool" where
  "is_manager (ComponentNode n p c) = False"
| "is_manager (ManagerNode n p ob ch co cf pr fp lm ld ma sl) = True"

text \<open>
  Modelled from the spec: \<^verbatim>\<open>TreeNode._add_child\<close> and the \<^verbatim>\<open>children\<close> property
  (\<^verbatim>\<open>node.py\<close> is not under \<^verbatim>\<open>src/\<close>). The children are an ordered collection keyed by
  name, and a name is unique among siblings: adding a child under a name already
  present replaces that child in place, a new name goes to the end.
\<close>

definition p_add_child :: "node \<Rightarrow> manager \<Rightarrow> manager" where
  "p_add_child new_child s =
     s\<lparr>p_children := AList.update (node_name new_child) new_child (p_children s)\<rparr>"

definition children :: "manager \<Rightarrow> node list" where
  "children s = map snd (p_children s)"

text \<open>
  Modelled from the spec: \<^verbatim>\<open>utils.nvlist_to_dict\<close> (\<^verbatim>\<open>utils.py\<close> is not under \<^verbatim>\<open>src/\<close>):
  the name to value mapping of a list of name and value pairs, a later pair
  overriding an earlier one of the same name.
\<close>

definition nvlist_to_dict :: "nvlist \<Rightarrow> dict" where
  "nvlist_to_dict nv = foldl (\<lambda>d (k, v). AList.update k v d) [] nv"

text \<open>
  Modelled from the spec: the constructor of \<^verbatim>\<open>Component\<close> (\<^verbatim>\<open>component.py\<close> is not
  under \<^verbatim>\<open>src/\<close>; the internals of a component leaf are out of scope): a leaf that
  carries its name, its parent and its remote handle.
\<close>

definition Component :: "string \<Rightarrow> parent_ref \<Rightarrow> rtc_obj \<Rightarrow> node" where
  "Component n p c = ComponentNode n (Some p) c"

text \<open>The decimal numeral that \<^verbatim>\<open>'{0}'.format(index)\<close> prints for a count.\<close>

definition digit_char :: "nat \<Rightarrow> char" where
  "digit_char d = ''0123456789'' ! d"

function str_nat :: "nat \<Rightarrow> string" where
  "str_nat n = (if n < 10 then [digit_char n] else str_nat (n div 10) @ [digit_char (n mod 10)])"
  by pat_completeness auto
termination
  by (relation "measure (\<lambda>n. n)") auto

declare str_nat.simps [simp del]

section \<open>Manager: parsing the children\<close>

text \<open>What the code prints on \<^verbatim>\<open>sys.stderr\<close>.\<close>

datatype stderr_line = ListingFault exc | ZombieSlaveWarning string

definition self_ref :: "manager \<Rightarrow> parent_ref" where
  "self_ref s = ManagerRef (name s) (p_obj s)"

text \<open>
  Modelled from the spec: the constructor of \<^verbatim>\<open>TreeNode\<close> (\<^verbatim>\<open>node.py\<close> is not under
  \<^verbatim>\<open>src/\<close>): a node with its name, its parent and no child. \<^verbatim>\<open>Manager.__init__\<close> then
  stores the handle; \<^verbatim>\<open>_parse\<close> is what first assigns the cached views.
\<close>

definition TreeNode_init :: "string \<Rightarrow> parent_ref option \<Rightarrow> mgr_obj \<Rightarrow> manager" where
  "TreeNode_init n p ob =
     \<lparr>name = n, parent = p, p_obj = ob, p_children = [], p_components = None,
      p_configuration = None, p_profile = None, p_factory_profiles = None,
      p_loadable_modules = None, p_loaded_modules = None, p_masters = None,
      p_slaves = None\<rparr>"

text \<open>The \<^verbatim>\<open>for c in comps\<close> loop of \<^verbatim>\<open>_parse_component_children\<close>.\<close>

fun component_loop :: "manager \<Rightarrow> rtc_obj list \<Rightarrow> (exc + unit) \<times> manager" where
  "component_loop s [] = (Inr (), s)"
| "component_loop s (c # comps) =
     (case get_component_profile c of
        Inl e \<Rightarrow> (Inl e, s)
      | Inr profile \<Rightarrow>
          (let leaf = Component (instance_name profile @ ''.rtc'') (self_ref s) c
           in component_loop (p_add_child leaf s) comps))"

definition p_parse_component_children ::
    "manager \<Rightarrow> (exc + unit) \<times> manager \<times> stderr_line list" where
  "p_parse_component_children s =
     (case get_components (p_obj s) of
        Inl e \<Rightarrow> (if e = BAD_PARAM then (Inr (), s, [ListingFault e]) else (Inl e, s, []))
      | Inr comps \<Rightarrow> (case component_loop s comps of (r, s') \<Rightarrow> (r, s', [])))"

text \<open>
  The component pass changes nothing of the manager but its children; the handle is
  the same afterwards, which the recursion below relies on.
\<close>

lemma component_loop_frame:
  "component_loop s cs = (r, s') \<Longrightarrow> \<exists>ch. s' = s\<lparr>p_children := ch\<rparr>"
proof (induction cs arbitrary: s)
  case Nil
  then have "s' = s\<lparr>p_children := p_children s\<rparr>" by simp
  then show ?case by blast
next
  case (Cons c cs)
  show ?case
  proof (cases "get_component_profile c")
    case (Inl e)
    with Cons.prems have "s' = s\<lparr>p_children := p_children s\<rparr>" by simp
    then show ?thesis by blast
  next
    case (Inr profile)
    with Cons.prems obtain leaf where "component_loop (p_add_child leaf s) cs = (r, s')"
      by (simp add: Let_def)
    from Cons.IH [OF this] show ?thesis by (auto simp: p_add_child_def)
  qed
qed

lemma p_parse_component_children_frame:
  "p_parse_component_children s = (r, s', out) \<Longrightarrow> \<exists>ch. s' = s\<lparr>p_children := ch\<rparr>"
proof (cases "get_components (p_obj s)")
  case (Inl e)
  assume "p_parse_component_children s = (r, s', out)"
  with Inl have "s' = s\<lparr>p_children := p_children s\<rparr>"
    by (simp add: p_parse_component_children_def split: if_splits)
  then show ?thesis by blast
next
  case (Inr comps)
  assume "p_parse_component_children s = (r, s', out)"
  with Inr have "component_loop s comps = (r, s')"
    by (simp add: p_parse_component_children_def split: prod.splits)
  then show ?thesis by (rule component_loop_frame)
qed

lemma p_parse_component_children_obj:
  "p_parse_component_children s = (r, s', out) \<Longrightarrow> p_obj s' = p_obj s"
  by (drule p_parse_component_children_frame) auto

lemma size_slaves: "get_slave_managers ob = Inr ms \<Longrightarrow> size_list size ms < size ob"
  by (cases ob) simp

text \<open>
  \<^verbatim>\<open>Manager.__init__\<close>, \<^verbatim>\<open>_parse\<close>, \<^verbatim>\<open>_parse_children\<close>, \<^verbatim>\<open>_parse_manager_children\<close> and the
  \<^verbatim>\<open>for m in mgrs\<close> loop of the latter, which constructs a \<^verbatim>\<open>Manager\<close> for every slave
  and so parses the slave's own children. An exception leaves the loop at once, with
  the children added so far; each function also returns the lines it printed.
\<close>

function Manager_init :: "string \<Rightarrow> parent_ref option \<Rightarrow> mgr_obj \<Rightarrow> (exc + manager) \<times> stderr_line list"
  and p_parse :: "manager \<Rightarrow> (exc + unit) \<times> manager \<times> stderr_line list"
  and p_parse_children :: "manager \<Rightarrow> (exc + unit) \<times> manager \<times> stderr_line list"
  and p_parse_manager_children :: "manager \<Rightarrow> (exc + unit) \<times> manager \<times> stderr_line list"
  and slave_loop :: "manager \<Rightarrow> nat \<Rightarrow> mgr_obj list \<Rightarrow> (exc + unit) \<times> manager \<times> stderr_line list"
where
  "Manager_init n p ob =
     (case p_parse (TreeNode_init n p ob) of
        (Inl e, s, out) \<Rightarrow> (Inl e, out)
      | (Inr u, s, out) \<Rightarrow> (Inr s, out))"
| "p_parse s =
     p_parse_children
       (s\<lparr>p_components := None, p_configuration := None, p_profile := None,
          p_factory_profiles := None, p_loadable_modules := None,
          p_loaded_modules := None, p_masters := None, p_slaves := None\<rparr>)"
| "p_parse_children s =
     (case p_parse_component_children s of
        (Inl e, s', out) \<Rightarrow> (Inl e, s', out)
      | (Inr u, s', out) \<Rightarrow>
          (case p_parse_manager_children s' of (r, s'', out') \<Rightarrow> (r, s'', out @ out')))"
| "p_parse_manager_children s =
     (case get_slave_managers (p_obj s) of
        Inl e \<Rightarrow> (if e = BAD_OPERATION then (Inr (), s, []) else (Inl e, s, []))
      | Inr mgrs \<Rightarrow> slave_loop s 0 mgrs)"
| "slave_loop s index [] = (Inr (), s, [])"
| "slave_loop s index (m # mgrs) =
     (case get_profile m of
        Inl e \<Rightarrow>
          (if e = TRANSIENT TRANSIENT_ConnectFailed
           then (case slave_loop s index mgrs of
                   (r, s', out) \<Rightarrow> (r, s', ZombieSlaveWarning (name s) # out))
           else (Inl e, s, []))
      | Inr properties \<Rightarrow>
          (let props = nvlist_to_dict properties in
           case (case map_of props ''name'' of
                   Some nm \<Rightarrow> (nm, index)
                 | None \<Rightarrow> (''slave'' @ str_nat index, index + 1)) of
             (nm, index') \<Rightarrow>
               (case Manager_init nm (Some (self_ref s)) m of
                  (Inl e, out) \<Rightarrow> (Inl e, s, out)
                | (Inr leaf, out) \<Rightarrow>
                    (case slave_loop (p_add_child (to_node leaf) s) index' mgrs of
                       (r, s', out') \<Rightarrow> (r, s', out @ out')))))"
  by pat_completeness auto
termination
proof (relation "measure (\<lambda>x. case x of
      Inl (Inl (n, p, ob)) \<Rightarrow> 5 * size ob + 4
    | Inl (Inr s) \<Rightarrow> 5 * size (p_obj s) + 3
    | Inr (Inl s) \<Rightarrow> 5 * size (p_obj s) + 2
    | Inr (Inr (Inl s)) \<Rightarrow> 5 * size (p_obj s) + 1
    | Inr (Inr (Inr (s, i, ms))) \<Rightarrow> 5 * size_list size ms)", goal_cases)
  case 1 show ?case by simp
next
  case 2 show ?case by (simp add: TreeNode_init_def)
next
  case 3 show ?case by simp
next
  case (4 s x y b xa ya)
  then have "p_parse_component_children s = (x, xa, ya)" by simp
  then have "p_obj xa = p_obj s" by (rule p_parse_component_children_obj)
  then show ?case by simp
next
  case (5 s b)
  then show ?case using size_slaves [of "p_obj s" b] by simp
next
  case 6 show ?case by simp
next
  case 7 show ?case by simp
next
  case 8 show ?case by simp
qed


declare Manager_init.simps [simp del] p_parse.simps [simp del]
  p_parse_children.simps [simp del] p_parse_manager_children.simps [simp del]

text \<open>
  Modelled from the spec: \<^verbatim>\<open>reparse\<close> (\<^verbatim>\<open>node.py\<close> is not under \<^verbatim>\<open>src/\<close>). A child is
  dropped when a reparse no longer finds its remote entry, the cached views are
  cleared and the child listings are resolved again into fresh nodes: the children are
  emptied and \<^verbatim>\<open>_parse\<close> runs.
\<close>

definition reparse :: "manager \<Rightarrow> (exc + unit) \<times> manager \<times> stderr_line list" where
  "reparse s = p_parse (s\<lparr>p_children := []\<rparr>)"

section \<open>Manager: the cached views\<close>

text \<open>Python's \<^verbatim>\<open>not x\<close> for a cached view: it is \<^verbatim>\<open>None\<close> or empty.\<close>

definition falsy :: "'a list option \<Rightarrow> bool" where
  "falsy c = (case c of None \<Rightarrow> True | Some xs \<Rightarrow> xs = [])"

definition components :: "manager \<Rightarrow> (exc + node list option) \<times> manager" where
  "components s =
     (let s' = (if falsy (p_components s)
                then s\<lparr>p_components := Some [c \<leftarrow> children s. is_component c]\<rparr> else s)
      in (Inr (p_components s'), s'))"

definition factory_profiles :: "manager \<Rightarrow> (exc + dict list option) \<times> manager" where
  "factory_profiles s =
     (if falsy (p_factory_profiles s)
      then (case get_factory_profiles (p_obj s) of
              Inl e \<Rightarrow> (Inl e, s\<lparr>p_factory_profiles := Some []\<rparr>)
            | Inr fps \<Rightarrow>
                (let s' = s\<lparr>p_factory_profiles := Some (map nvlist_to_dict fps)\<rparr>
                 in (Inr (p_factory_profiles s'), s')))
      else (Inr (p_factory_profiles s), s))"

definition set_config_parameter ::
    "string \<Rightarrow> string \<Rightarrow> manager \<Rightarrow> (exc + unit) \<times> manager" where
  "set_config_parameter param val s =
     (case set_configuration (p_obj s) param val of
        Inl e \<Rightarrow> (Inl e, s)
      | Inr rc \<Rightarrow>
          (if rc \<noteq> RTC_OK then (Inl (FailedToSetConfigurationError param val), s)
           else (Inr (), s\<lparr>p_configuration := None\<rparr>)))"

definition configuration :: "manager \<Rightarrow> (exc + dict option) \<times> manager" where
  "configuration s =
     (if falsy (p_configuration s)
      then (case get_configuration (p_obj s) of
              Inl e \<Rightarrow> (Inl e, s)
            | Inr nv \<Rightarrow>
                (let s' = s\<lparr>p_configuration := Some (nvlist_to_dict nv)\<rparr>
                 in (Inr (p_configuration s'), s')))
      else (Inr (p_configuration s), s))"

definition profile :: "manager \<Rightarrow> (exc + dict option) \<times> manager" where
  "profile s =
     (if falsy (p_profile s)
      then (case get_profile (p_obj s) of
              Inl e \<Rightarrow> (Inl e, s)
            | Inr properties \<Rightarrow>
                (let s' = s\<lparr>p_profile := Some (nvlist_to_dict properties)\<rparr>
                 in (Inr (p_profile s'), s')))
      else (Inr (p_profile s), s))"

definition loadable_modules :: "manager \<Rightarrow> (exc + dict list option) \<times> manager" where
  "loadable_modules s =
     (if falsy (p_loadable_modules s)
      then (case get_loadable_modules (p_obj s) of
              Inl e \<Rightarrow> (Inl e, s\<lparr>p_loadable_modules := Some []\<rparr>)
            | Inr mps \<Rightarrow>
                (let s' = s\<lparr>p_loadable_modules := Some (map nvlist_to_dict mps)\<rparr>
                 in (Inr (p_loadable_modules s'), s')))
      else (Inr (p_loadable_modules s), s))"

definition loaded_modules :: "manager \<Rightarrow> (exc + dict list option) \<times> manager" where
  "loaded_modules s =
     (if falsy (p_loaded_modules s)
      then (case get_loaded_modules (p_obj s) of
              Inl e \<Rightarrow> (Inl e, s\<lparr>p_loaded_modules := Some []\<rparr>)
            | Inr mps \<Rightarrow>
                (let s' = s\<lparr>p_loaded_modules := Some (map nvlist_to_dict mps)\<rparr>
                 in (Inr (p_loaded_modules s'), s')))
      else (Inr (p_loaded_modules s), s))"

definition masters :: "manager \<Rightarrow> (exc + node list option) \<times> manager" where
  "masters s =
     (if falsy (p_masters s) then (Inl NotImplementedError, s)
      else (Inr (p_masters s), s))"

definition slaves :: "manager \<Rightarrow> (exc + node list option) \<times> manager" where
  "slaves s =
     (let s' = (if falsy (p_slaves s)
                then s\<lparr>p_slaves := Some [c \<leftarrow> children s. is_manager c]\<rparr> else s)
      in (Inr (p_slaves s'), s'))"

section \<open>Manager: masters and slaves\<close>

text \<open>
  The four registration helpers call the remote object and change nothing locally.
  They read the name and the handle of the manager they run on and of their argument,
  which the source requires to be a \<^verbatim>\<open>Manager\<close> object: both are given as a pair of
  name and handle.
\<close>

type_synonym manager_ref = "string \<times> mgr_obj"

definition p_add_master :: "manager_ref \<Rightarrow> manager_ref \<Rightarrow> exc + unit" where
  "p_add_master self new_master =
     (case add_master_manager (snd self) (ior (snd new_master)) of
        Inl e \<Rightarrow> Inl e
      | Inr rc \<Rightarrow> (if rc \<noteq> RTC_OK then Inl FailedToAddMasterManagerError else Inr ()))"

definition p_add_slave :: "manager_ref \<Rightarrow> manager_ref \<Rightarrow> exc + unit" where
  "p_add_slave self new_slave =
     (case add_save_manager (snd self) (ior (snd new_slave)) of
        Inl e \<Rightarrow> Inl e
      | Inr rc \<Rightarrow>
          (if rc \<noteq> RTC_OK then Inl (FailedToAddSlaveManagerError (fst self) (fst new_slave))
           else Inr ()))"

definition p_remove_master :: "manager_ref \<Rightarrow> manager_ref \<Rightarrow> exc + unit" where
  "p_remove_master self master =
     (case remove_master_manager (snd self) (ior (snd master)) of
        Inl e \<Rightarrow> Inl e
      | Inr rc \<Rightarrow> (if rc \<noteq> RTC_OK then Inl FailedToRemoveMasterManagerError else Inr ()))"

definition p_remove_slave :: "manager_ref \<Rightarrow> manager_ref \<Rightarrow> exc + unit" where
  "p_remove_slave self slave =
     (case remove_slave_manager (snd self) (ior (snd slave)) of
        Inl e \<Rightarrow> Inl e
      | Inr rc \<Rightarrow>
          (if rc \<noteq> RTC_OK then Inl (FailedToRemoveSlaveManagerError (fst self) (fst slave))
           else Inr ()))"

text \<open>
  \<^verbatim>\<open>_set_parent\<close>. The detaching calls run only when the node has a parent that is a
  manager. The assignment \<^verbatim>\<open>self.parent = new_parent\<close> goes through the property setter
  of \<^verbatim>\<open>TreeNode\<close> (\<^verbatim>\<open>node.py\<close> is not under \<^verbatim>\<open>src/\<close>). Modelled from the spec: it updates
  the local parent pointer.
\<close>

definition detach_old_parent :: "manager \<Rightarrow> exc + unit" where
  "detach_old_parent s =
     (case parent s of
        None \<Rightarrow> Inr ()
      | Some (DirectoryRef pn) \<Rightarrow> Inr ()
      | Some (ManagerRef pn pob) \<Rightarrow>
          (case p_remove_slave (pn, pob) (name s, p_obj s) of
             Inl e \<Rightarrow> Inl e
           | Inr u \<Rightarrow> p_remove_master (name s, p_obj s) (pn, pob)))"

definition p_set_parent :: "manager_ref \<Rightarrow> manager \<Rightarrow> (exc + unit) \<times> manager" where
  "p_set_parent new_parent s =
     (case detach_old_parent s of
        Inl e \<Rightarrow> (Inl e, s)
      | Inr u \<Rightarrow>
          (case p_add_master (name s, p_obj s) new_parent of
             Inl e \<Rightarrow> (Inl e, s)
           | Inr u \<Rightarrow>
               (case p_add_slave new_parent (name s, p_obj s) of
                  Inl e \<Rightarrow> (Inl e, s)
                | Inr u \<Rightarrow>
                    (Inr (), s\<lparr>parent := Some (ManagerRef (fst new_parent) (snd new_parent))\<rparr>))))"

section \<open>Auxiliary notions\<close>

text \<open>
  The node after a call, out of the triple of result, node and printed lines.
\<close>

definition after :: "'a \<times> manager \<times> 'b \<Rightarrow> manager" where
  "after x = fst (snd x)"

text \<open>
  Adding a list of children one after the other with \<^verbatim>\<open>_add_child\<close>, and the same on
  the association list of the children.
\<close>

definition add_children :: "node list \<Rightarrow> manager \<Rightarrow> manager" where
  "add_children leaves s = foldl (\<lambda>s' leaf. p_add_child leaf s') s leaves"

definition update_all :: "('k \<times> 'v) list \<Rightarrow> ('k \<times> 'v) list \<Rightarrow> ('k \<times> 'v) list" where
  "update_all us al = foldl (\<lambda>al' (k, v). AList.update k v al') al us"

text \<open>
  The assignments at the head of \<^verbatim>\<open>_parse\<close>: every cached view is unfetched.
\<close>

definition clear_views :: "manager \<Rightarrow> manager" where
  "clear_views s =
     s\<lparr>p_components := None, p_configuration := None, p_profile := None,
       p_factory_profiles := None, p_loadable_modules := None,
       p_loaded_modules := None, p_masters := None, p_slaves := None\<rparr>"

section \<open>Stub remote objects\<close>

text \<open>
  A stub of a remote manager: the given reference, listings and profile, one
  configuration entry, no module, every status call answering \<open>RTC_OK\<close>. The remote
  interface has no operation \<^verbatim>\<open>add_save_manager\<close>, so the stub raises on it.
\<close>

definition stub_manager ::
    "nat \<Rightarrow> exc + rtc_obj list \<Rightarrow> exc + mgr_obj list \<Rightarrow> exc + nvlist \<Rightarrow> mgr_obj" where
  "stub_manager i comps mgrs properties =
     MgrObj i comps mgrs properties (Inr [(''manager.name'', ''manager'')]) (Inr []) (Inr [])
       (Inr []) (\<lambda>param val. Inr RTC_OK) (\<lambda>r. Inr RTC_OK)
       (\<lambda>r. Inl (AttributeError ''add_save_manager'')) (\<lambda>r. Inr RTC_OK)
       (\<lambda>r. Inr RTC_OK)"

text \<open>
  A stub whose status calls all answer the given status.
\<close>

definition stub_registrar :: "nat \<Rightarrow> ReturnCode_t \<Rightarrow> mgr_obj" where
  "stub_registrar i rc =
     MgrObj i (Inr []) (Inr []) (Inr []) (Inr []) (Inr []) (Inr []) (Inr [])
       (\<lambda>param val. Inr rc) (\<lambda>r. Inr rc) (\<lambda>r. Inr rc) (\<lambda>r. Inr rc) (\<lambda>r. Inr rc)"

text \<open>
  A manager bound under a name server whose remote object rejects the component listing
  and does not support slave managers.
\<close>

definition legacy_manager :: manager where
  "legacy_manager =
     TreeNode_init ''manager.mgr'' (Some (DirectoryRef ''localhost''))
       (stub_manager 1 (Inl BAD_PARAM) (Inl BAD_OPERATION) (Inr []))"

text \<open>
  A manager that has already fetched its configuration and its profile.
\<close>

definition configured_manager :: manager where
  "configured_manager =
     (TreeNode_init ''manager.mgr'' (Some (DirectoryRef ''localhost''))
        (stub_manager 1 (Inr []) (Inr []) (Inr [])))
      \<lparr>p_configuration := Some [(''manager.name'', ''old'')],
       p_profile := Some [(''language'', ''Python'')]\<rparr>"

text \<open>
  A master manager with one component, whose instance name is \<^verbatim>\<open>C10\<close>, and four slave
  managers in this order: one without a name in its profile, one named \<^verbatim>\<open>worker\<close>, one
  that refuses the connection, and a second one without a name.
\<close>

definition c10_rtc :: rtc_obj where
  "c10_rtc = RTCObj (Inr \<lparr>instance_name = ''C10''\<rparr>)"

definition python_slave :: mgr_obj where
  "python_slave = stub_manager 2 (Inr []) (Inr []) (Inr [(''language'', ''Python'')])"

definition worker_slave :: mgr_obj where
  "worker_slave = stub_manager 3 (Inr []) (Inl BAD_OPERATION) (Inr [(''name'', ''worker'')])"

definition unreachable_slave :: mgr_obj where
  "unreachable_slave =
     stub_manager 4 (Inr []) (Inr []) (Inl (TRANSIENT TRANSIENT_ConnectFailed))"

definition plain_slave :: mgr_obj where
  "plain_slave = stub_manager 5 (Inr []) (Inr []) (Inr [])"

definition master_obj :: mgr_obj where
  "master_obj =
     stub_manager 1 (Inr [c10_rtc])
       (Inr [python_slave, worker_slave, unreachable_slave, plain_slave])
       (Inr [(''name'', ''manager'')])"

definition master_manager :: manager where
  "master_manager = TreeNode_init ''manager.mgr'' (Some (DirectoryRef ''localhost'')) master_obj"

text \<open>
  The children of that manager once parsed.
\<close>

definition master_children :: "(string \<times> node) list" where
  "master_children =
     [(''C10.rtc'', ComponentNode ''C10.rtc'' (Some (ManagerRef ''manager.mgr'' master_obj)) c10_rtc),
      (''slave0'', to_node (TreeNode_init ''slave0'' (Some (ManagerRef ''manager.mgr'' master_obj)) python_slave)),
      (''worker'', to_node (TreeNode_init ''worker'' (Some (ManagerRef ''manager.mgr'' master_obj)) worker_slave)),
      (''slave1'', to_node (TreeNode_init ''slave1'' (Some (ManagerRef ''manager.mgr'' master_obj)) plain_slave))]"

text \<open>
  A manager whose only slave refuses the connection.
\<close>

definition haunted_manager :: manager where
  "haunted_manager =
     TreeNode_init ''manager.mgr'' (Some (DirectoryRef ''localhost''))
       (stub_manager 1 (Inr []) (Inr [unreachable_slave]) (Inr []))"

section \<open>Specification predicates\<close>

text \<open>
  Every remote registration that \<^verbatim>\<open>_set_parent\<close> requires succeeds: remove-slave on the
  old parent and remove-master on the node when the old parent is a manager, add-master
  on the node, add-slave on the new parent.
\<close>

definition registrations_ok :: "manager_ref \<Rightarrow> manager \<Rightarrow> bool" where
  "registrations_ok new_parent s =
     ((case parent s of
         None \<Rightarrow> True
       | Some (DirectoryRef pn) \<Rightarrow> True
       | Some (ManagerRef pn pob) \<Rightarrow>
           remove_slave_manager pob (ior (p_obj s)) = Inr RTC_OK \<and>
           remove_master_manager (p_obj s) (ior pob) = Inr RTC_OK) \<and>
      add_master_manager (p_obj s) (ior (snd new_parent)) = Inr RTC_OK \<and>
      add_save_manager (snd new_parent) (ior (p_obj s)) = Inr RTC_OK)"

text \<open>
  The synthetic names as the specification words them. The entries are the slaves whose
  profile could be fetched, in listing order; an entry is unnamed when its profile has
  no key \<^verbatim>\<open>name\<close>; the entry at position \<open>j\<close> is called by its name, or else
  \<^verbatim>\<open>slave\<close> followed by the number of unnamed entries before it.
\<close>

definition unnamed :: "dict \<Rightarrow> bool" where
  "unnamed props \<longleftrightarrow> map_of props ''name'' = None"

fun entry_profiles :: "mgr_obj list \<Rightarrow> dict list" where
  "entry_profiles [] = []"
| "entry_profiles (m # ms) =
     (case get_profile m of
        Inl e \<Rightarrow> entry_profiles ms
      | Inr properties \<Rightarrow> nvlist_to_dict properties # entry_profiles ms)"

definition slave_name :: "dict list \<Rightarrow> nat \<Rightarrow> string" where
  "slave_name ps j =
     (case map_of (ps ! j) ''name'' of
        Some nm \<Rightarrow> nm
      | None \<Rightarrow> ''slave'' @ str_nat (length (filter unnamed (take j ps))))"

text \<open>
  The same names by recursion over the entries, with the counter as an argument.
\<close>

fun names_from :: "nat \<Rightarrow> dict list \<Rightarrow> string list" where
  "names_from i [] = []"
| "names_from i (p # ps) =
     (case map_of p ''name'' of
        Some nm \<Rightarrow> nm # names_from i ps
      | None \<Rightarrow> (''slave'' @ str_nat i) # names_from (Suc i) ps)"

text \<open>
  A slave whose profile fetch fails with the connection refused.
\<close>

definition connect_failed :: "mgr_obj \<Rightarrow> bool" where
  "connect_failed m \<longleftrightarrow> get_profile m = Inl (TRANSIENT TRANSIENT_ConnectFailed)"

text \<open>
  The name of the child of a listed component: its instance name followed by
  \<^verbatim>\<open>.rtc\<close>, when its profile can be fetched.
\<close>

definition component_name :: "rtc_obj \<Rightarrow> string option" where
  "component_name c =
     (case get_component_profile c of
        Inl e \<Rightarrow> None
      | Inr prof \<Rightarrow> Some (instance_name prof @ ''.rtc''))"

section \<open>Auxiliary lemmas\<close>

lemma after_triple [simp]: "after (r, s, out) = s"
  by (simp add: after_def)

lemma fst_wrap_out [simp]:
  "fst (case x of (r, s', out) \<Rightarrow> (r, s', f out)) = fst x"
  by (cases x) auto

lemma after_wrap_out [simp]:
  "after (case x of (r, s', out) \<Rightarrow> (r, s', f out)) = after x"
  by (cases x) (auto simp: after_def)

text \<open>
  Updating an association list with the same pairs a second time changes nothing: after
  the first pass every key is present, so the second pass writes in place and ends with
  the same last value for every key.
\<close>

lemma update_all_Nil [simp]: "update_all [] al = al"
  by (simp add: update_all_def)

lemma update_all_Cons [simp]:
  "update_all ((k, v) # us) al = update_all us (AList.update k v al)"
  by (simp add: update_all_def)

lemma update_all_snoc [simp]:
  "update_all (us @ [(k, v)]) al = AList.update k v (update_all us al)"
  by (simp add: update_all_def)

lemma update_swap_list:
  "k \<noteq> k' \<Longrightarrow> k' \<in> fst ` set al \<Longrightarrow>
   AList.update k' v' (AList.update k v al) = AList.update k v (AList.update k' v' al)"
  by (induction al) auto

lemma keys_update_all: "fst ` set (update_all us al) = fst ` set al \<union> fst ` set us"
proof (induction us arbitrary: al)
  case Nil
  show ?case by simp
next
  case (Cons u us)
  obtain k v where u: "u = (k, v)" by (cases u)
  show ?case unfolding u by (simp add: Cons.IH dom_update)
qed

lemma update_all_after_update:
  "fst ` set us \<subseteq> fst ` set al \<Longrightarrow>
   update_all us (AList.update k v al) =
     (if k \<in> fst ` set us then update_all us al else AList.update k v (update_all us al))"
proof (induction us arbitrary: al)
  case Nil
  show ?case by simp
next
  case (Cons u us)
  obtain k1 v1 where u: "u = (k1, v1)" by (cases u)
  from Cons.prems u have k1: "k1 \<in> fst ` set al" and sub: "fst ` set us \<subseteq> fst ` set al"
    by auto
  from sub have sub': "fst ` set us \<subseteq> fst ` set (AList.update k1 v1 al)"
    by (auto simp: dom_update)
  show ?case
  proof (cases "k1 = k")
    case True
    then show ?thesis by (simp add: u)
  next
    case False
    then have "AList.update k1 v1 (AList.update k v al) = AList.update k v (AList.update k1 v1 al)"
      using k1 by (intro update_swap_list) auto
    then show ?thesis using False Cons.IH [OF sub'] by (simp add: u)
  qed
qed

lemma update_all_idem: "update_all us (update_all us al) = update_all us al"
proof (induction us rule: rev_induct)
  case Nil
  show ?case by simp
next
  case (snoc u us)
  obtain k v where u: "u = (k, v)" by (cases u)
  let ?e = "update_all us al"
  have sub: "fst ` set us \<subseteq> fst ` set ?e" by (simp add: keys_update_all)
  have "update_all us (AList.update k v ?e) =
      (if k \<in> fst ` set us then ?e else AList.update k v ?e)"
    by (simp add: update_all_after_update [OF sub] snoc.IH)
  then show ?case by (simp add: u)
qed

lemma add_children_Nil [simp]: "add_children [] s = s"
  by (simp add: add_children_def)

lemma add_children_Cons [simp]:
  "add_children (leaf # leaves) s = add_children leaves (p_add_child leaf s)"
  by (simp add: add_children_def)

lemma add_children_append:
  "add_children (xs @ ys) s = add_children ys (add_children xs s)"
  by (simp add: add_children_def)

lemma add_children_eq:
  "add_children leaves s =
     s\<lparr>p_children := update_all (map (\<lambda>leaf. (node_name leaf, leaf)) leaves) (p_children s)\<rparr>"
  by (induction leaves arbitrary: s) (simp_all add: p_add_child_def)

lemma add_children_idem: "add_children leaves (add_children leaves s) = add_children leaves s"
  by (simp add: add_children_eq update_all_idem)

lemma add_children_name [simp]: "name (add_children leaves s) = name s"
  and add_children_obj [simp]: "p_obj (add_children leaves s) = p_obj s"
  by (simp_all add: add_children_eq)

lemma p_add_child_name [simp]: "name (p_add_child leaf s) = name s"
  and p_add_child_obj [simp]: "p_obj (p_add_child leaf s) = p_obj s"
  and p_add_child_self_ref [simp]: "self_ref (p_add_child leaf s) = self_ref s"
  by (simp_all add: p_add_child_def self_ref_def)

lemma clear_views_name [simp]: "name (clear_views s) = name s"
  and clear_views_obj [simp]: "p_obj (clear_views s) = p_obj s"
  by (simp_all add: clear_views_def)

lemma clear_views_add_children:
  "clear_views (add_children leaves s) = add_children leaves (clear_views s)"
  by (simp add: add_children_eq clear_views_def)

lemma clear_views_idem [simp]: "clear_views (clear_views s) = clear_views s"
  by (simp add: clear_views_def)

text \<open>
  What a parse does is fixed by the name and the handle of the manager: the result, the
  children it adds and the lines it prints do not depend on the children and the cached
  views the manager had before.
\<close>

lemma component_loop_run:
  "\<exists>r leaves. \<forall>s. name s = n \<longrightarrow> p_obj s = ob \<longrightarrow>
     component_loop s cs = (r, add_children leaves s)"
proof (induction cs)
  case Nil
  have "\<forall>s. name s = n \<longrightarrow> p_obj s = ob \<longrightarrow> component_loop s [] = (Inr (), add_children [] s)"
    by simp
  then show ?case by blast
next
  case (Cons c cs)
  show ?case
  proof (cases "get_component_profile c")
    case (Inl e)
    then have "\<forall>s. name s = n \<longrightarrow> p_obj s = ob \<longrightarrow>
        component_loop s (c # cs) = (Inl e, add_children [] s)"
      by simp
    then show ?thesis by blast
  next
    case (Inr prof)
    from Cons.IH obtain r leaves where
      ih: "\<And>s. name s = n \<Longrightarrow> p_obj s = ob \<Longrightarrow> component_loop s cs = (r, add_children leaves s)"
      by blast
    let ?leaf = "Component (instance_name prof @ ''.rtc'') (ManagerRef n ob) c"
    have "\<forall>s. name s = n \<longrightarrow> p_obj s = ob \<longrightarrow>
        component_loop s (c # cs) = (r, add_children (?leaf # leaves) s)"
      using Inr by (simp add: ih self_ref_def)
    then show ?thesis by blast
  qed
qed

lemma slave_loop_run:
  "\<exists>r leaves out. \<forall>s. name s = n \<longrightarrow> p_obj s = ob \<longrightarrow>
     slave_loop s i ms = (r, add_children leaves s, out)"
proof (induction ms arbitrary: i)
  case Nil
  have "\<forall>s. name s = n \<longrightarrow> p_obj s = ob \<longrightarrow>
      slave_loop s i [] = (Inr (), add_children [] s, [])"
    by simp
  then show ?case by blast
next
  case (Cons m ms)
  show ?case
  proof (cases "get_profile m")
    case (Inl e)
    show ?thesis
    proof (cases "e = TRANSIENT TRANSIENT_ConnectFailed")
      case True
      from Cons.IH [of i] obtain r leaves out where
        ih: "\<And>s. name s = n \<Longrightarrow> p_obj s = ob \<Longrightarrow>
               slave_loop s i ms = (r, add_children leaves s, out)"
        by blast
      have "\<forall>s. name s = n \<longrightarrow> p_obj s = ob \<longrightarrow>
          slave_loop s i (m # ms) = (r, add_children leaves s, ZombieSlaveWarning n # out)"
        using Inl True by (simp add: ih)
      then show ?thesis by blast
    next
      case False
      with Inl have "\<forall>s. name s = n \<longrightarrow> p_obj s = ob \<longrightarrow>
          slave_loop s i (m # ms) = (Inl e, add_children [] s, [])"
        by simp
      then show ?thesis by blast
    qed
  next
    case (Inr nv)
    obtain nm i' where nm:
      "(case map_of (nvlist_to_dict nv) ''name'' of
          Some nm \<Rightarrow> (nm, i)
        | None \<Rightarrow> (''slave'' @ str_nat i, i + 1)) = (nm, i')"
      by (cases "case map_of (nvlist_to_dict nv) ''name'' of
          Some nm \<Rightarrow> (nm, i)
        | None \<Rightarrow> (''slave'' @ str_nat i, i + 1)") auto
    obtain q out1 where mi: "Manager_init nm (Some (ManagerRef n ob)) m = (q, out1)"
      by (cases "Manager_init nm (Some (ManagerRef n ob)) m") auto
    show ?thesis
    proof (cases q)
      case (Inl e)
      have "\<forall>s. name s = n \<longrightarrow> p_obj s = ob \<longrightarrow>
          slave_loop s i (m # ms) = (Inl e, add_children [] s, out1)"
        using Inr nm mi Inl by (simp add: self_ref_def)
      then show ?thesis by blast
    next
      case (Inr leaf)
      from Cons.IH [of i'] obtain r leaves out where
        ih: "\<And>s. name s = n \<Longrightarrow> p_obj s = ob \<Longrightarrow>
               slave_loop s i' ms = (r, add_children leaves s, out)"
        by blast
      have "\<forall>s. name s = n \<longrightarrow> p_obj s = ob \<longrightarrow>
          slave_loop s i (m # ms) = (r, add_children (to_node leaf # leaves) s, out1 @ out)"
        using \<open>get_profile m = Inr nv\<close> nm mi Inr by (simp add: self_ref_def ih)
      then show ?thesis by blast
    qed
  qed
qed

lemma p_parse_component_children_run:
  "\<exists>r leaves out. \<forall>s. name s = n \<longrightarrow> p_obj s = ob \<longrightarrow>
     p_parse_component_children s = (r, add_children leaves s, out)"
proof (cases "get_components ob")
  case (Inl e)
  then have "\<forall>s. name s = n \<longrightarrow> p_obj s = ob \<longrightarrow>
      p_parse_component_children s =
        (if e = BAD_PARAM then Inr () else Inl e, add_children [] s,
         if e = BAD_PARAM then [ListingFault e] else [])"
    by (simp add: p_parse_component_children_def)
  then show ?thesis by blast
next
  case (Inr comps)
  from component_loop_run [of n ob comps] obtain r leaves where
    "\<And>s. name s = n \<Longrightarrow> p_obj s = ob \<Longrightarrow> component_loop s comps = (r, add_children leaves s)"
    by blast
  with Inr have "\<forall>s. name s = n \<longrightarrow> p_obj s = ob \<longrightarrow>
      p_parse_component_children s = (r, add_children leaves s, [])"
    by (simp add: p_parse_component_children_def)
  then show ?thesis by blast
qed

lemma p_parse_manager_children_run:
  "\<exists>r leaves out. \<forall>s. name s = n \<longrightarrow> p_obj s = ob \<longrightarrow>
     p_parse_manager_children s = (r, add_children leaves s, out)"
proof (cases "get_slave_managers ob")
  case (Inl e)
  then have "\<forall>s. name s = n \<longrightarrow> p_obj s = ob \<longrightarrow>
      p_parse_manager_children s =
        (if e = BAD_OPERATION then Inr () else Inl e, add_children [] s, [])"
    by (simp add: p_parse_manager_children.simps)
  then show ?thesis by blast
next
  case (Inr mgrs)
  from slave_loop_run [of n ob 0 mgrs] obtain r leaves out where
    "\<And>s. name s = n \<Longrightarrow> p_obj s = ob \<Longrightarrow> slave_loop s 0 mgrs = (r, add_children leaves s, out)"
    by blast
  with Inr have "\<forall>s. name s = n \<longrightarrow> p_obj s = ob \<longrightarrow>
      p_parse_manager_children s = (r, add_children leaves s, out)"
    by (simp add: p_parse_manager_children.simps)
  then show ?thesis by blast
qed

lemma p_parse_children_run:
  "\<exists>r leaves out. \<forall>s. name s = n \<longrightarrow> p_obj s = ob \<longrightarrow>
     p_parse_children s = (r, add_children leaves s, out)"
proof -
  from p_parse_component_children_run [of n ob] obtain r1 l1 o1 where
    c: "\<And>s. name s = n \<Longrightarrow> p_obj s = ob \<Longrightarrow>
          p_parse_component_children s = (r1, add_children l1 s, o1)"
    by blast
  from p_parse_manager_children_run [of n ob] obtain r2 l2 o2 where
    m: "\<And>s. name s = n \<Longrightarrow> p_obj s = ob \<Longrightarrow>
          p_parse_manager_children s = (r2, add_children l2 s, o2)"
    by blast
  show ?thesis
  proof (cases r1)
    case (Inl e)
    then have "\<forall>s. name s = n \<longrightarrow> p_obj s = ob \<longrightarrow>
        p_parse_children s = (Inl e, add_children l1 s, o1)"
      by (simp add: p_parse_children.simps c)
    then show ?thesis by blast
  next
    case (Inr u)
    then have "\<forall>s. name s = n \<longrightarrow> p_obj s = ob \<longrightarrow>
        p_parse_children s = (r2, add_children (l1 @ l2) s, o1 @ o2)"
      by (simp add: p_parse_children.simps c m add_children_append)
    then show ?thesis by blast
  qed
qed

lemma p_parse_clear_views: "p_parse s = p_parse_children (clear_views s)"
  by (simp add: p_parse.simps clear_views_def)

lemma p_parse_run:
  "\<exists>r leaves out. \<forall>s. name s = n \<longrightarrow> p_obj s = ob \<longrightarrow>
     p_parse s = (r, add_children leaves (clear_views s), out)"
proof -
  from p_parse_children_run [of n ob] obtain r leaves out where
    "\<And>s. name s = n \<Longrightarrow> p_obj s = ob \<Longrightarrow> p_parse_children s = (r, add_children leaves s, out)"
    by blast
  then have "\<forall>s. name s = n \<longrightarrow> p_obj s = ob \<longrightarrow>
      p_parse s = (r, add_children leaves (clear_views s), out)"
    by (simp add: p_parse_clear_views)
  then show ?thesis by blast
qed

lemma p_parse_idem: "p_parse (fst (snd (p_parse s))) = p_parse s"
proof -
  from p_parse_run [of "name s" "p_obj s"] obtain r leaves out where
    run: "\<And>t. name t = name s \<Longrightarrow> p_obj t = p_obj s \<Longrightarrow>
            p_parse t = (r, add_children leaves (clear_views t), out)"
    by blast
  let ?s1 = "add_children leaves (clear_views s)"
  have 1: "p_parse s = (r, ?s1, out)" by (simp add: run)
  have "p_parse ?s1 = (r, add_children leaves (clear_views ?s1), out)"
    by (rule run) simp_all
  also have "clear_views ?s1 = ?s1"
    by (simp add: clear_views_add_children)
  finally have "p_parse ?s1 = (r, ?s1, out)"
    by (simp add: add_children_idem)
  with 1 show ?thesis by simp
qed

lemma reparse_idem: "reparse (fst (snd (reparse s))) = reparse s"
proof -
  let ?s0 = "s\<lparr>p_children := []\<rparr>"
  from p_parse_run [of "name s" "p_obj s"] obtain r leaves out where
    run: "\<And>t. name t = name s \<Longrightarrow> p_obj t = p_obj s \<Longrightarrow>
            p_parse t = (r, add_children leaves (clear_views t), out)"
    by blast
  let ?s1 = "add_children leaves (clear_views ?s0)"
  have 1: "reparse s = (r, ?s1, out)" by (simp add: reparse_def run)
  have "clear_views (?s1\<lparr>p_children := []\<rparr>) = clear_views ?s0"
    by (simp add: add_children_eq clear_views_def)
  moreover have "p_parse (?s1\<lparr>p_children := []\<rparr>) =
      (r, add_children leaves (clear_views (?s1\<lparr>p_children := []\<rparr>)), out)"
    by (rule run) simp_all
  ultimately have "reparse ?s1 = (r, ?s1, out)" by (simp add: reparse_def)
  with 1 show ?thesis by simp
qed

lemma p_parse_views:
  "p_slaves (after (p_parse s)) = None \<and> p_masters (after (p_parse s)) = None"
proof -
  from p_parse_run [of "name s" "p_obj s"] obtain r leaves out where
    "p_parse s = (r, add_children leaves (clear_views s), out)"
    by blast
  then show ?thesis by (simp add: add_children_eq clear_views_def)
qed

lemma Manager_init_name:
  assumes "Manager_init nm p m = (Inr leaf, out)"
  shows "name leaf = nm"
proof -
  let ?t = "TreeNode_init nm p m"
  from p_parse_run [of "name ?t" "p_obj ?t"] obtain r leaves out' where
    "p_parse ?t = (r, add_children leaves (clear_views ?t), out')"
    by blast
  with assms have "leaf = add_children leaves (clear_views ?t)"
    by (auto simp: Manager_init.simps split: sum.splits)
  then show ?thesis by (simp add: TreeNode_init_def)
qed

text \<open>
  The names the loops give, and the entries they skip.
\<close>

lemma names_from_eq:
  "names_from i ps =
     map (\<lambda>j. case map_of (ps ! j) ''name'' of
                 Some nm \<Rightarrow> nm
               | None \<Rightarrow> ''slave'' @ str_nat (i + length (filter unnamed (take j ps))))
       [0..<length ps]"
proof (induction ps arbitrary: i)
  case Nil
  show ?case by simp
next
  case (Cons p ps)
  have upt: "[0..<length (p # ps)] = 0 # map Suc [0..<length ps]"
    by (simp add: upt_conv_Cons map_Suc_upt del: upt_Suc)
  show ?case
    unfolding upt
    by (cases "map_of p ''name''") (auto simp: Cons.IH unnamed_def split: option.splits)
qed

lemma names_from_0: "names_from 0 ps = map (slave_name ps) [0..<length ps]"
  by (auto simp: names_from_eq slave_name_def split: option.splits)

lemma slave_loop_names:
  "slave_loop s i ms = (Inr (), s', out) \<Longrightarrow>
   \<exists>leaves. s' = add_children leaves s \<and> list_all is_manager leaves \<and>
     map node_name leaves = names_from i (entry_profiles ms)"
proof (induction ms arbitrary: s i out)
  case Nil
  then have "s' = add_children [] s" by simp
  then show ?case by force
next
  case (Cons m ms)
  show ?case
  proof (cases "get_profile m")
    case (Inl e)
    with Cons.prems have e: "e = TRANSIENT TRANSIENT_ConnectFailed"
      by (auto split: if_splits)
    with Inl Cons.prems obtain out' where "slave_loop s i ms = (Inr (), s', out')"
      by (auto split: prod.splits)
    from Cons.IH [OF this] Inl show ?thesis by simp
  next
    case (Inr nv)
    obtain nm i' where nm:
      "(case map_of (nvlist_to_dict nv) ''name'' of
          Some nm \<Rightarrow> (nm, i)
        | None \<Rightarrow> (''slave'' @ str_nat i, i + 1)) = (nm, i')"
      by (cases "case map_of (nvlist_to_dict nv) ''name'' of
          Some nm \<Rightarrow> (nm, i)
        | None \<Rightarrow> (''slave'' @ str_nat i, i + 1)") auto
    obtain q out1 where mi: "Manager_init nm (Some (self_ref s)) m = (q, out1)"
      by (cases "Manager_init nm (Some (self_ref s)) m") auto
    from Cons.prems Inr nm mi obtain leaf out2 where
      q: "q = Inr leaf" and
      rest: "slave_loop (p_add_child (to_node leaf) s) i' ms = (Inr (), s', out2)"
      by (cases q) (auto split: prod.splits)
    from mi q have "name leaf = nm" by (simp add: Manager_init_name)
    then have nn: "node_name (to_node leaf) = nm" by (simp add: to_node_def)
    from Cons.IH [OF rest] obtain leaves where
      l: "s' = add_children leaves (p_add_child (to_node leaf) s)"
         "list_all is_manager leaves"
         "map node_name leaves = names_from i' (entry_profiles ms)"
      by blast
    have "s' = add_children (to_node leaf # leaves) s" using l(1) by simp
    moreover have "list_all is_manager (to_node leaf # leaves)"
      using l(2) by (simp add: to_node_def)
    moreover have "map node_name (to_node leaf # leaves) = names_from i (entry_profiles (m # ms))"
      using nm nn l(3) Inr by (auto split: option.splits)
    ultimately show ?thesis by blast
  qed
qed

lemma slave_loop_skip:
  assumes "connect_failed m"
  shows "fst (slave_loop s i (ms @ m # ms')) = fst (slave_loop s i (ms @ ms')) \<and>
         after (slave_loop s i (ms @ m # ms')) = after (slave_loop s i (ms @ ms'))"
proof (induction ms arbitrary: s i)
  case Nil
  from assms show ?case
    by (simp add: connect_failed_def)
next
  case (Cons x ms)
  show ?case
  proof (cases "get_profile x")
    case (Inl e)
    then show ?thesis
      using Cons.IH [of s i] by simp
  next
    case (Inr nv)
    obtain nm i' where nm:
      "(case map_of (nvlist_to_dict nv) ''name'' of
          Some nm \<Rightarrow> (nm, i)
        | None \<Rightarrow> (''slave'' @ str_nat i, i + 1)) = (nm, i')"
      by (cases "case map_of (nvlist_to_dict nv) ''name'' of
          Some nm \<Rightarrow> (nm, i)
        | None \<Rightarrow> (''slave'' @ str_nat i, i + 1)") auto
    obtain q out1 where mi: "Manager_init nm (Some (self_ref s)) x = (q, out1)"
      by (cases "Manager_init nm (Some (self_ref s)) x") auto
    show ?thesis
    proof (cases q)
      case (Inl e)
      with Inr nm mi show ?thesis by simp
    next
      case (Inr leaf)
      with \<open>get_profile x = Inr nv\<close> nm mi show ?thesis
        using Cons.IH [of "p_add_child (to_node leaf) s" i']
        by simp
    qed
  qed
qed

lemma slave_loop_warns:
  assumes "connect_failed m"
  shows "slave_loop s i (ms @ m # ms') = (Inr (), s', out) \<Longrightarrow>
         ZombieSlaveWarning (name s) \<in> set out"
proof (induction ms arbitrary: s i out)
  case Nil
  with assms show ?case
    by (auto simp: connect_failed_def split: prod.splits)
next
  case (Cons x ms)
  show ?case
  proof (cases "get_profile x")
    case (Inl e)
    with Cons.prems obtain out' where "slave_loop s i (ms @ m # ms') = (Inr (), s', out')"
      and "out = ZombieSlaveWarning (name s) # out'"
      by (auto split: if_splits prod.splits)
    then show ?thesis by simp
  next
    case (Inr nv)
    obtain nm i' where nm:
      "(case map_of (nvlist_to_dict nv) ''name'' of
          Some nm \<Rightarrow> (nm, i)
        | None \<Rightarrow> (''slave'' @ str_nat i, i + 1)) = (nm, i')"
      by (cases "case map_of (nvlist_to_dict nv) ''name'' of
          Some nm \<Rightarrow> (nm, i)
        | None \<Rightarrow> (''slave'' @ str_nat i, i + 1)") auto
    obtain q out1 where mi: "Manager_init nm (Some (self_ref s)) x = (q, out1)"
      by (cases "Manager_init nm (Some (self_ref s)) x") auto
    from Cons.prems Inr nm mi obtain leaf out2 where
      rest: "slave_loop (p_add_child (to_node leaf) s) i' (ms @ m # ms') = (Inr (), s', out2)"
      and out: "out = out1 @ out2"
      by (cases q) (auto split: prod.splits)
    from Cons.IH [OF rest] out show ?thesis by simp
  qed
qed

lemma slave_loop_all_failed:
  "list_all connect_failed ms \<Longrightarrow>
   slave_loop s i ms = (Inr (), s, replicate (length ms) (ZombieSlaveWarning (name s)))"
  by (induction ms) (simp_all add: connect_failed_def)

lemma component_loop_names:
  "component_loop s cs = (r, s') \<Longrightarrow>
   \<exists>leaves. s' = add_children leaves s \<and> list_all is_component leaves \<and>
     map (Some \<circ> node_name) leaves = map component_name (take (length leaves) cs) \<and>
     (r = Inr () \<longrightarrow> length leaves = length cs)"
proof (induction cs arbitrary: s)
  case Nil
  then have "s' = add_children [] s \<and> r = Inr ()" by simp
  then show ?case by force
next
  case (Cons c cs)
  show ?case
  proof (cases "get_component_profile c")
    case (Inl e)
    with Cons.prems have "s' = add_children [] s \<and> r = Inl e" by simp
    then show ?thesis by (intro exI [of _ "[]"]) simp
  next
    case (Inr prof)
    let ?leaf = "Component (instance_name prof @ ''.rtc'') (self_ref s) c"
    from Cons.prems Inr have "component_loop (p_add_child ?leaf s) cs = (r, s')"
      by (simp add: Let_def)
    from Cons.IH [OF this] obtain leaves where
      l: "s' = add_children leaves (p_add_child ?leaf s)" "list_all is_component leaves"
         "map (Some \<circ> node_name) leaves = map component_name (take (length leaves) cs)"
         "r = Inr () \<longrightarrow> length leaves = length cs"
      by blast
    have "s' = add_children (?leaf # leaves) s" using l(1) by simp
    moreover have "list_all is_component (?leaf # leaves)"
      using l(2) by (simp add: Component_def)
    moreover have "map (Some \<circ> node_name) (?leaf # leaves) =
        map component_name (take (length (?leaf # leaves)) (c # cs))"
      using l(3) Inr by (simp add: Component_def component_name_def)
    moreover have "r = Inr () \<longrightarrow> length (?leaf # leaves) = length (c # cs)"
      using l(4) by simp
    ultimately show ?thesis by blast
  qed
qed

text \<open>
  The parse of the stub master manager, step by step.
\<close>

lemma stub_manager_sel [simp]:
  "get_components (stub_manager i comps mgrs properties) = comps"
  "get_slave_managers (stub_manager i comps mgrs properties) = mgrs"
  "get_profile (stub_manager i comps mgrs properties) = properties"
  by (simp_all add: stub_manager_def)

lemma leaf_parse:
  assumes "get_components ob = Inr []"
    and "get_slave_managers ob = Inr [] \<or> get_slave_managers ob = Inl BAD_OPERATION"
  shows "Manager_init nm p ob = (Inr (TreeNode_init nm p ob), [])"
  using assms
  by (auto simp: Manager_init.simps p_parse.simps p_parse_children.simps
      p_parse_manager_children.simps p_parse_component_children_def TreeNode_init_def)

lemma slave_inits:
  "Manager_init nm p python_slave = (Inr (TreeNode_init nm p python_slave), [])"
  "Manager_init nm p worker_slave = (Inr (TreeNode_init nm p worker_slave), [])"
  "Manager_init nm p plain_slave = (Inr (TreeNode_init nm p plain_slave), [])"
  by (rule leaf_parse; simp add: python_slave_def worker_slave_def plain_slave_def)+

lemma slave_profiles:
  "get_profile python_slave = Inr [(''language'', ''Python'')]"
  "get_profile worker_slave = Inr [(''name'', ''worker'')]"
  "get_profile unreachable_slave = Inl (TRANSIENT TRANSIENT_ConnectFailed)"
  "get_profile plain_slave = Inr []"
  by (simp_all add: python_slave_def worker_slave_def plain_slave_def unreachable_slave_def)

lemma str_nat_digits: "str_nat 0 = ''0''" "str_nat 1 = ''1''" "str_nat (Suc 0) = ''1''"
  by (simp_all add: str_nat.simps digit_char_def)

lemma master_manager_slaves:
  "name s = ''manager.mgr'' \<Longrightarrow> p_obj s = master_obj \<Longrightarrow>
   slave_loop s 0 [python_slave, worker_slave, unreachable_slave, plain_slave] =
     (Inr (),
      add_children
        [to_node (TreeNode_init ''slave0'' (Some (ManagerRef ''manager.mgr'' master_obj)) python_slave),
         to_node (TreeNode_init ''worker'' (Some (ManagerRef ''manager.mgr'' master_obj)) worker_slave),
         to_node (TreeNode_init ''slave1'' (Some (ManagerRef ''manager.mgr'' master_obj)) plain_slave)] s,
      [ZombieSlaveWarning ''manager.mgr''])"
  by (simp add: slave_profiles slave_inits nvlist_to_dict_def self_ref_def str_nat_digits)

lemma master_manager_parse:
  "p_parse master_manager =
     (Inr (), master_manager\<lparr>p_children := master_children\<rparr>,
      [ZombieSlaveWarning ''manager.mgr''])"
proof -
  have c: "p_parse_component_children master_manager =
      (Inr (), p_add_child (ComponentNode ''C10.rtc'' (Some (ManagerRef ''manager.mgr'' master_obj)) c10_rtc) master_manager, [])"
    by (simp add: p_parse_component_children_def master_manager_def TreeNode_init_def
        master_obj_def c10_rtc_def Component_def self_ref_def)
  have cl: "clear_views master_manager = master_manager"
    by (simp add: clear_views_def master_manager_def TreeNode_init_def)
  have g: "get_slave_managers master_obj =
      Inr [python_slave, worker_slave, unreachable_slave, plain_slave]"
    by (simp add: master_obj_def)
  have nm: "name master_manager = ''manager.mgr''" "p_obj master_manager = master_obj"
    by (simp_all add: master_manager_def TreeNode_init_def)
  have "p_parse master_manager = p_parse_children master_manager"
    by (simp add: p_parse_clear_views cl)
  also have "\<dots> = (Inr (), master_manager\<lparr>p_children := master_children\<rparr>,
      [ZombieSlaveWarning ''manager.mgr''])"
    by (simp add: p_parse_children.simps c p_parse_manager_children.simps nm g
        master_manager_slaves del: slave_loop.simps)
       (simp add: p_add_child_def master_children_def master_manager_def TreeNode_init_def
        to_node_def)
  finally show ?thesis .
qed

lemma master_manager_reparse:
  "reparse master_manager =
     (Inr (), master_manager\<lparr>p_children := master_children\<rparr>,
      [ZombieSlaveWarning ''manager.mgr''])"
proof -
  have "master_manager\<lparr>p_children := []\<rparr> = master_manager"
    by (simp add: master_manager_def TreeNode_init_def)
  then show ?thesis by (simp add: reparse_def master_manager_parse)
qed

section \<open>Properties: address resolution\<close>

lemma str_find_0: "str_find s sub = 0 \<longleftrightarrow> prefix sub s"
  by (cases s) (auto simp: Let_def)

lemma parse_address_examples:
  "p_parse_address ''iiop:localhost:2809'' = ''corbaloc:iiop:localhost:2809/NameService''"
  "p_parse_address ''myhost'' = ''corbaloc::myhost/NameService''"
  "p_parse_address ''http://host/path'' = ''http://host/path#NameService''"
  by (simp_all add: p_parse_address_def protocols_m_str_def protocols_v_str_def)

text \<open>
  Where the protocol prefix does not occur again in the rest of the address, the
  result is the address with its prefix replaced; the web schemes and the bare form
  are as the specification gives them.
\<close>

lemma str_replace_absent:
  "old \<noteq> [] \<Longrightarrow> \<not> sublist old s \<Longrightarrow> str_replace s old new = s"
proof (induction s)
  case Nil
  then show ?case by simp
next
  case (Cons c cs)
  from Cons.prems have "\<not> prefix old (c # cs)" by (auto dest: prefix_imp_sublist)
  moreover from Cons.prems have "\<not> sublist old cs" by (auto simp: sublist_Cons_right)
  ultimately show ?case using Cons by simp
qed

lemma parse_address_protocol:
  assumes "(k, v) \<in> set protocols_m_str" and "\<not> sublist k rest"
  shows "p_parse_address (k @ rest) = v @ rest @ ''/NameService''"
  using assms
  by (auto simp: p_parse_address_def protocols_m_str_def str_find_0 str_replace_absent)

lemma parse_address_web:
  assumes "p \<in> set protocols_v_str"
  shows "p_parse_address (p @ rest) = p @ rest @ ''#NameService''"
  using assms
  by (auto simp: p_parse_address_def protocols_m_str_def protocols_v_str_def str_find_0)

lemma parse_address_bare:
  assumes "\<forall>k \<in> set (map fst protocols_m_str @ protocols_v_str). \<not> prefix k address"
  shows "p_parse_address address = ''corbaloc::'' @ address @ ''/NameService''"
  using assms
  by (simp add: p_parse_address_def protocols_m_str_def protocols_v_str_def str_find_0)

text \<open>
  C3. The address resolution replaces the protocol prefix by the locator prefix. At an
  address that names two endpoints, \<^verbatim>\<open>iiop:a,iiop:b\<close>, \<^verbatim>\<open>str.replace\<close> rewrites the
  second \<^verbatim>\<open>iiop:\<close> as well: the result is not the address with its prefix replaced.
\<close>

theorem parse_address_replaces_every_occurrence:
  "p_parse_address ''iiop:a,iiop:b'' = ''corbaloc:iiop:a,corbaloc:iiop:b/NameService'' \<and>
   p_parse_address ''iiop:a,iiop:b'' \<noteq> ''corbaloc:iiop:a,iiop:b/NameService''"
  by (simp add: p_parse_address_def protocols_m_str_def)

section \<open>Properties: reparenting\<close>

text \<open>
  C1. When every required remote registration succeeds, \<^verbatim>\<open>_set_parent\<close> returns and the
  parent pointer is the new parent; when any of them fails, \<^verbatim>\<open>_set_parent\<close> raises and
  the node is unchanged, its parent pointer included.
\<close>

theorem set_parent_atomic:
  "(registrations_ok new_parent s \<longrightarrow>
      p_set_parent new_parent s =
        (Inr (), s\<lparr>parent := Some (ManagerRef (fst new_parent) (snd new_parent))\<rparr>)) \<and>
   (\<not> registrations_ok new_parent s \<longrightarrow>
      (\<exists>e. p_set_parent new_parent s = (Inl e, s)))"
  by (auto simp: registrations_ok_def p_set_parent_def detach_old_parent_def
      p_add_master_def p_add_slave_def p_remove_master_def p_remove_slave_def
      split: option.splits parent_ref.splits sum.splits)

theorem set_parent_atomic_witness:
  "registrations_ok (''new.mgr'', stub_registrar 3 RTC_OK)
     (TreeNode_init ''slave.mgr'' (Some (ManagerRef ''old.mgr'' (stub_registrar 1 RTC_OK)))
        (stub_registrar 2 RTC_OK)) \<and>
   p_set_parent (''new.mgr'', stub_registrar 3 RTC_OK)
     (TreeNode_init ''slave.mgr'' (Some (ManagerRef ''old.mgr'' (stub_registrar 1 RTC_OK)))
        (stub_registrar 2 RTC_OK)) =
     (Inr (), TreeNode_init ''slave.mgr'' (Some (ManagerRef ''new.mgr'' (stub_registrar 3 RTC_OK)))
        (stub_registrar 2 RTC_OK)) \<and>
   \<not> registrations_ok (''new.mgr'', stub_registrar 3 RTC_OK)
     (TreeNode_init ''slave.mgr'' (Some (ManagerRef ''old.mgr'' (stub_registrar 1 RTC_ERROR)))
        (stub_registrar 2 RTC_OK)) \<and>
   (\<exists>e. p_set_parent (''new.mgr'', stub_registrar 3 RTC_OK)
     (TreeNode_init ''slave.mgr'' (Some (ManagerRef ''old.mgr'' (stub_registrar 1 RTC_ERROR)))
        (stub_registrar 2 RTC_OK)) =
     (Inl e, TreeNode_init ''slave.mgr'' (Some (ManagerRef ''old.mgr'' (stub_registrar 1 RTC_ERROR)))
        (stub_registrar 2 RTC_OK)))"
proof -
  have ok: "registrations_ok (''new.mgr'', stub_registrar 3 RTC_OK)
     (TreeNode_init ''slave.mgr'' (Some (ManagerRef ''old.mgr'' (stub_registrar 1 RTC_OK)))
        (stub_registrar 2 RTC_OK))"
    by (simp add: registrations_ok_def TreeNode_init_def stub_registrar_def)
  have bad: "\<not> registrations_ok (''new.mgr'', stub_registrar 3 RTC_OK)
     (TreeNode_init ''slave.mgr'' (Some (ManagerRef ''old.mgr'' (stub_registrar 1 RTC_ERROR)))
        (stub_registrar 2 RTC_OK))"
    by (simp add: registrations_ok_def TreeNode_init_def stub_registrar_def)
  from ok bad
    set_parent_atomic [of "(''new.mgr'', stub_registrar 3 RTC_OK)"
      "TreeNode_init ''slave.mgr'' (Some (ManagerRef ''old.mgr'' (stub_registrar 1 RTC_OK)))
        (stub_registrar 2 RTC_OK)"]
    set_parent_atomic [of "(''new.mgr'', stub_registrar 3 RTC_OK)"
      "TreeNode_init ''slave.mgr'' (Some (ManagerRef ''old.mgr'' (stub_registrar 1 RTC_ERROR)))
        (stub_registrar 2 RTC_OK)"]
  show ?thesis by (simp add: TreeNode_init_def)
qed

section \<open>Properties: faults of the listings\<close>

text \<open>
  C7. When the component listing raises \<^verbatim>\<open>BAD_PARAM\<close>, \<^verbatim>\<open>_parse_component_children\<close>
  returns normally: it adds no child and changes nothing, it only prints the fault.
  \<^verbatim>\<open>_parse_children\<close> then goes on with the slave managers, and raises only if that
  step does.
\<close>

theorem component_listing_bad_param:
  assumes "get_components (p_obj s) = Inl BAD_PARAM"
  shows "p_parse_component_children s = (Inr (), s, [ListingFault BAD_PARAM]) \<and>
         p_parse_children s =
           (case p_parse_manager_children s of
              (r, s', out) \<Rightarrow> (r, s', ListingFault BAD_PARAM # out))"
  using assms
  by (simp add: p_parse_component_children_def p_parse_children.simps split: prod.splits)

theorem component_listing_bad_param_witness:
  "get_components (p_obj legacy_manager) = Inl BAD_PARAM \<and>
   p_parse_component_children legacy_manager =
     (Inr (), legacy_manager, [ListingFault BAD_PARAM]) \<and>
   p_parse_children legacy_manager = (Inr (), legacy_manager, [ListingFault BAD_PARAM])"
proof -
  have h: "get_components (p_obj legacy_manager) = Inl BAD_PARAM"
    by (simp add: legacy_manager_def TreeNode_init_def stub_manager_def)
  have m: "p_parse_manager_children legacy_manager = (Inr (), legacy_manager, [])"
    by (simp add: p_parse_manager_children.simps legacy_manager_def TreeNode_init_def
        stub_manager_def)
  from component_listing_bad_param [OF h] h m show ?thesis by simp
qed

text \<open>
  C8. When the slave-manager listing raises \<^verbatim>\<open>BAD_OPERATION\<close>, \<^verbatim>\<open>_parse_manager_children\<close>
  returns normally, adds no child, changes nothing and prints nothing: parsing the
  children is then parsing the component children alone.
\<close>

theorem slave_listing_unsupported:
  assumes "get_slave_managers (p_obj s) = Inl BAD_OPERATION"
  shows "p_parse_manager_children s = (Inr (), s, []) \<and>
         p_parse_children s = p_parse_component_children s"
proof
  show "p_parse_manager_children s = (Inr (), s, [])"
    using assms by (simp add: p_parse_manager_children.simps)
next
  obtain r s' out where c: "p_parse_component_children s = (r, s', out)"
    by (cases "p_parse_component_children s") auto
  then have "p_obj s' = p_obj s" by (rule p_parse_component_children_obj)
  with assms have "p_parse_manager_children s' = (Inr (), s', [])"
    by (simp add: p_parse_manager_children.simps)
  with c show "p_parse_children s = p_parse_component_children s"
    by (cases r) (simp_all add: p_parse_children.simps)
qed

theorem slave_listing_unsupported_witness:
  "get_slave_managers (p_obj legacy_manager) = Inl BAD_OPERATION \<and>
   p_parse_manager_children legacy_manager = (Inr (), legacy_manager, []) \<and>
   p_parse_children legacy_manager = p_parse_component_children legacy_manager"
proof -
  have h: "get_slave_managers (p_obj legacy_manager) = Inl BAD_OPERATION"
    by (simp add: legacy_manager_def TreeNode_init_def stub_manager_def)
  from slave_listing_unsupported [OF h] h show ?thesis by simp
qed

section \<open>Properties: configuration\<close>

text \<open>
  C9. A successful \<^verbatim>\<open>set_config_parameter\<close> resets the configuration cache to \<open>None\<close> and
  changes no other field: the children and the other cached views are as before. The
  next read of \<^verbatim>\<open>configuration\<close> fetches the configuration from the remote object.
\<close>

theorem set_config_parameter_frame:
  assumes "set_config_parameter param val s = (Inr (), s')"
  shows "s' = s\<lparr>p_configuration := None\<rparr> \<and>
         p_configuration s' = None \<and>
         p_children s' = p_children s \<and> p_components s' = p_components s \<and>
         p_profile s' = p_profile s \<and> p_factory_profiles s' = p_factory_profiles s \<and>
         p_loadable_modules s' = p_loadable_modules s \<and>
         p_loaded_modules s' = p_loaded_modules s \<and>
         p_masters s' = p_masters s \<and> p_slaves s' = p_slaves s \<and>
         configuration s' =
           (case get_configuration (p_obj s') of
              Inl e \<Rightarrow> (Inl e, s')
            | Inr nv \<Rightarrow> (Inr (Some (nvlist_to_dict nv)),
                         s'\<lparr>p_configuration := Some (nvlist_to_dict nv)\<rparr>))"
proof -
  from assms have s': "s' = s\<lparr>p_configuration := None\<rparr>"
    by (auto simp: set_config_parameter_def split: sum.splits if_splits)
  then show ?thesis
    by (simp add: configuration_def falsy_def Let_def split: sum.splits)
qed

theorem set_config_parameter_frame_witness:
  "set_config_parameter ''test.config'' ''test'' configured_manager =
     (Inr (), configured_manager\<lparr>p_configuration := None\<rparr>) \<and>
   p_profile (configured_manager\<lparr>p_configuration := None\<rparr>) = Some [(''language'', ''Python'')] \<and>
   configuration (configured_manager\<lparr>p_configuration := None\<rparr>) =
     (Inr (Some [(''manager.name'', ''manager'')]),
      configured_manager\<lparr>p_configuration := Some [(''manager.name'', ''manager'')]\<rparr>)"
proof -
  have h: "set_config_parameter ''test.config'' ''test'' configured_manager =
     (Inr (), configured_manager\<lparr>p_configuration := None\<rparr>)"
    by (simp add: set_config_parameter_def configured_manager_def TreeNode_init_def
        stub_manager_def)
  have g: "get_configuration (p_obj (configured_manager\<lparr>p_configuration := None\<rparr>)) =
      Inr [(''manager.name'', ''manager'')]"
    by (simp add: configured_manager_def TreeNode_init_def stub_manager_def)
  have p: "p_profile configured_manager = Some [(''language'', ''Python'')]"
    by (simp add: configured_manager_def TreeNode_init_def)
  from set_config_parameter_frame [OF h] h g p show ?thesis
    by (simp add: nvlist_to_dict_def)
qed

section \<open>Properties: reparse\<close>

text \<open>
  C2. A second reparse, the remote handle giving the same answers, ends as the first
  did: the same result, the same printed lines and the same node, so the same names and
  children and the same cached views, whatever is read from them next. This holds for
  \<^verbatim>\<open>reparse\<close> and for \<^verbatim>\<open>_parse\<close> alone, which does not empty the children first. Nodes
  are values here: that the children are fresh objects is not expressed.
\<close>

theorem reparse_idempotent:
  "reparse (after (reparse s)) = reparse s \<and> p_parse (after (p_parse s)) = p_parse s"
  by (simp add: after_def reparse_idem p_parse_idem)

theorem reparse_idempotent_witness:
  "reparse (after (reparse master_manager)) = reparse master_manager \<and>
   p_parse (after (p_parse master_manager)) = p_parse master_manager \<and>
   fst (reparse (after (reparse master_manager))) = Inr () \<and>
   map fst (p_children (after (reparse (after (reparse master_manager))))) =
     [''C10.rtc'', ''slave0'', ''worker'', ''slave1'']"
  using reparse_idempotent [of master_manager]
  by (simp add: master_manager_reparse after_def master_children_def)

section \<open>Properties: the names of the children\<close>

text \<open>
  C10. \<^verbatim>\<open>_parse_component_children\<close> adds, in listing order, one component leaf for each
  listed component up to the first whose profile cannot be fetched, and each leaf is
  named by the instance name of its profile followed by \<^verbatim>\<open>.rtc\<close>. When it returns
  normally there is one leaf for every listed component.
\<close>

theorem component_children_named:
  assumes "get_components (p_obj s) = Inr comps"
    and "p_parse_component_children s = (r, s', out)"
  shows "\<exists>leaves. s' = add_children leaves s \<and> list_all is_component leaves \<and>
           map (Some \<circ> node_name) leaves = map component_name (take (length leaves) comps) \<and>
           (r = Inr () \<longrightarrow> length leaves = length comps)"
proof -
  from assms have "component_loop s comps = (r, s')"
    by (simp add: p_parse_component_children_def split: prod.splits)
  then show ?thesis by (rule component_loop_names)
qed

theorem component_children_named_witness:
  "get_components (p_obj master_manager) = Inr [c10_rtc] \<and>
   p_parse_component_children master_manager =
     (Inr (), master_manager\<lparr>p_children := [hd master_children]\<rparr>, []) \<and>
   map fst [hd master_children] = [''C10.rtc''] \<and>
   map component_name [c10_rtc] = [Some ''C10.rtc''] \<and>
   (\<exists>leaves. master_manager\<lparr>p_children := [hd master_children]\<rparr> = add_children leaves master_manager \<and>
      list_all is_component leaves \<and> map (Some \<circ> node_name) leaves = [Some ''C10.rtc''])"
proof -
  have g: "get_components (p_obj master_manager) = Inr [c10_rtc]"
    by (simp add: master_manager_def TreeNode_init_def master_obj_def)
  have c: "p_parse_component_children master_manager =
      (Inr (), master_manager\<lparr>p_children := [hd master_children]\<rparr>, [])"
    by (simp add: p_parse_component_children_def master_manager_def TreeNode_init_def
        master_obj_def c10_rtc_def Component_def self_ref_def p_add_child_def
        master_children_def)
  have n: "map component_name [c10_rtc] = [Some ''C10.rtc'']"
    by (simp add: component_name_def c10_rtc_def)
  have k: "map fst [hd master_children] = [''C10.rtc'']"
    by (simp add: master_children_def)
  from component_children_named [OF g c] obtain leaves where
    l: "master_manager\<lparr>p_children := [hd master_children]\<rparr> = add_children leaves master_manager"
       "list_all is_component leaves"
       "map (Some \<circ> node_name) leaves = map component_name (take (length leaves) [c10_rtc])"
       "length leaves = length [c10_rtc]"
    by auto
  from l(3,4) n have "map (Some \<circ> node_name) leaves = [Some ''C10.rtc'']" by simp
  with l(1,2) g c n k show ?thesis by (intro conjI exI [of _ leaves]) simp_all
qed

text \<open>
  C4. When \<^verbatim>\<open>_parse_manager_children\<close> returns normally, it has added, in listing order,
  one manager node for each slave whose profile could be fetched. A slave whose profile
  has a name is called by it; the others are called \<^verbatim>\<open>slave0\<close>, \<^verbatim>\<open>slave1\<close>, ... by a
  counter that only the unnamed entries advance.
\<close>

theorem slave_names_synthetic:
  assumes "get_slave_managers (p_obj s) = Inr mgrs"
    and "p_parse_manager_children s = (Inr (), s', out)"
  shows "\<exists>leaves. s' = add_children leaves s \<and> list_all is_manager leaves \<and>
           map node_name leaves =
             map (slave_name (entry_profiles mgrs)) [0..<length (entry_profiles mgrs)]"
proof -
  from assms have "slave_loop s 0 mgrs = (Inr (), s', out)"
    by (simp add: p_parse_manager_children.simps)
  from slave_loop_names [OF this] show ?thesis by (simp add: names_from_0)
qed

theorem slave_names_synthetic_witness:
  "get_slave_managers (p_obj master_manager) =
     Inr [python_slave, worker_slave, unreachable_slave, plain_slave] \<and>
   fst (p_parse_manager_children master_manager) = Inr () \<and>
   (\<exists>leaves. after (p_parse_manager_children master_manager) = add_children leaves master_manager \<and>
      list_all is_manager leaves \<and> map node_name leaves = [''slave0'', ''worker'', ''slave1''])"
proof -
  have nm: "name master_manager = ''manager.mgr''" "p_obj master_manager = master_obj"
    by (simp_all add: master_manager_def TreeNode_init_def)
  have g: "get_slave_managers (p_obj master_manager) =
      Inr [python_slave, worker_slave, unreachable_slave, plain_slave]"
    by (simp add: nm master_obj_def)
  obtain s' where pm: "p_parse_manager_children master_manager =
      (Inr (), s', [ZombieSlaveWarning ''manager.mgr''])"
    using g by (simp add: p_parse_manager_children.simps master_manager_slaves [OF nm]
        del: slave_loop.simps)
  have names: "map (slave_name (entry_profiles [python_slave, worker_slave, unreachable_slave, plain_slave]))
      [0..<length (entry_profiles [python_slave, worker_slave, unreachable_slave, plain_slave])] =
      [''slave0'', ''worker'', ''slave1'']"
    by (simp add: slave_profiles nvlist_to_dict_def slave_name_def unnamed_def
        str_nat_digits upt_rec)
  from slave_names_synthetic [OF g pm] g pm names show ?thesis by simp
qed

section \<open>Properties: unreachable slaves\<close>

text \<open>
  C5, as stated, fails: a slave whose profile fetch is refused is not kept as a zombie
  node. With such a slave as the only entry of the listing, the manager has no child
  after the parse.
\<close>

theorem zombie_slave_not_retained:
  "p_parse_manager_children haunted_manager =
     (Inr (), haunted_manager, [ZombieSlaveWarning ''manager.mgr'']) \<and>
   children haunted_manager = [] \<and>
   fst (p_parse haunted_manager) = Inr () \<and>
   children (after (p_parse haunted_manager)) = []"
  by (simp add: haunted_manager_def unreachable_slave_def TreeNode_init_def
      p_parse_manager_children.simps children_def p_parse.simps p_parse_children.simps
      p_parse_component_children_def after_def)

text \<open>
  C5, amended. A slave whose profile fetch fails with the connection refused is
  skipped: the parse ends with the same result and the same node as it would if the
  listing did not hold that entry, and when it returns normally it has printed a
  warning for the entry. When every entry fails so, the parse returns normally, the
  node is unchanged and one warning is printed for each entry.
\<close>

theorem zombie_slave_skipped:
  assumes "get_slave_managers (p_obj s) = Inr (ms @ m # ms')"
    and "connect_failed m"
  shows "fst (p_parse_manager_children s) = fst (slave_loop s 0 (ms @ ms')) \<and>
         after (p_parse_manager_children s) = after (slave_loop s 0 (ms @ ms')) \<and>
         (fst (p_parse_manager_children s) = Inr () \<longrightarrow>
            ZombieSlaveWarning (name s) \<in> set (snd (snd (p_parse_manager_children s)))) \<and>
         (list_all connect_failed (ms @ ms') \<longrightarrow>
            p_parse_manager_children s =
              (Inr (), s, replicate (Suc (length (ms @ ms'))) (ZombieSlaveWarning (name s))))"
proof -
  from assms(1) have p: "p_parse_manager_children s = slave_loop s 0 (ms @ m # ms')"
    by (simp add: p_parse_manager_children.simps)
  have "list_all connect_failed (ms @ ms') \<Longrightarrow> list_all connect_failed (ms @ m # ms')"
    using assms(2) by simp
  moreover have "fst (slave_loop s 0 (ms @ m # ms')) = Inr () \<Longrightarrow>
      ZombieSlaveWarning (name s) \<in> set (snd (snd (slave_loop s 0 (ms @ m # ms'))))"
    using slave_loop_warns [OF assms(2), of s 0 ms ms']
    by (cases "slave_loop s 0 (ms @ m # ms')") auto
  ultimately show ?thesis
    using slave_loop_skip [OF assms(2), of s 0 ms ms']
      slave_loop_all_failed [of "ms @ m # ms'" s 0]
    by (auto simp: p)
qed

theorem zombie_slave_skipped_witness:
  "get_slave_managers (p_obj master_manager) =
     Inr ([python_slave, worker_slave] @ unreachable_slave # [plain_slave]) \<and>
   connect_failed unreachable_slave \<and>
   fst (p_parse_manager_children master_manager) =
     fst (slave_loop master_manager 0 ([python_slave, worker_slave] @ [plain_slave])) \<and>
   after (p_parse_manager_children master_manager) =
     after (slave_loop master_manager 0 ([python_slave, worker_slave] @ [plain_slave])) \<and>
   \<not> list_all connect_failed ([python_slave, worker_slave] @ [plain_slave]) \<and>
   fst (p_parse_manager_children master_manager) = Inr () \<and>
   ZombieSlaveWarning (name master_manager) \<in>
     set (snd (snd (p_parse_manager_children master_manager)))"
proof -
  have nm: "name master_manager = ''manager.mgr''" "p_obj master_manager = master_obj"
    by (simp_all add: master_manager_def TreeNode_init_def)
  have g: "get_slave_managers (p_obj master_manager) =
      Inr ([python_slave, worker_slave] @ unreachable_slave # [plain_slave])"
    by (simp add: nm master_obj_def)
  have z: "connect_failed unreachable_slave"
    by (simp add: connect_failed_def slave_profiles)
  have r: "fst (p_parse_manager_children master_manager) = Inr ()"
    using g by (simp add: p_parse_manager_children.simps master_manager_slaves [OF nm]
        del: slave_loop.simps)
  have n: "\<not> list_all connect_failed ([python_slave, worker_slave] @ [plain_slave])"
    by (simp add: connect_failed_def slave_profiles)
  from zombie_slave_skipped [OF g z] g z r n show ?thesis by simp
qed

section \<open>Properties: masters and slaves accessors\<close>

text \<open>
  After \<^verbatim>\<open>_parse\<close> or a reparse, \<^verbatim>\<open>slaves\<close> returns normally, and returns (and caches)
  exactly the children that are managers, in the order of the children. The cache of
  the masters is unfetched then, and nothing in \<^verbatim>\<open>manager.py\<close> ever fills it.
\<close>

lemma slaves_after_parse:
  assumes "s' = after (p_parse s) \<or> s' = after (reparse s)"
  shows "slaves s' =
           (Inr (Some [c \<leftarrow> children s'. is_manager c]),
            s'\<lparr>p_slaves := Some [c \<leftarrow> children s'. is_manager c]\<rparr>) \<and>
         p_masters s' = None"
proof -
  from assms have "p_slaves s' = None \<and> p_masters s' = None"
    using p_parse_views [of s] p_parse_views [of "s\<lparr>p_children := []\<rparr>"]
    by (auto simp: reparse_def)
  then show ?thesis by (simp add: slaves_def falsy_def)
qed

text \<open>
  C6. The docstring of \<^verbatim>\<open>masters\<close> promises the list of the master managers, empty for a
  manager that is a master. The stub master manager is bound under a name server; its
  reparse returns normally, and \<^verbatim>\<open>slaves\<close> then returns its three manager children, but
  \<^verbatim>\<open>masters\<close> does not return the empty list: it raises \<^verbatim>\<open>NotImplementedError\<close>.
\<close>

theorem masters_not_implemented:
  "fst (reparse master_manager) = Inr () \<and>
   fst (slaves (after (reparse master_manager))) = Inr (Some (map snd (tl master_children))) \<and>
   fst (masters (after (reparse master_manager))) = Inl NotImplementedError \<and>
   fst (masters (after (reparse master_manager))) \<noteq> Inr (Some [])"
proof -
  have m: "p_masters master_manager = None" "p_slaves master_manager = None"
    by (simp_all add: master_manager_def TreeNode_init_def)
  have f: "[c \<leftarrow> children (master_manager\<lparr>p_children := master_children\<rparr>). is_manager c] =
      map snd (tl master_children)"
    by (simp add: children_def master_children_def to_node_def)
  from m f show ?thesis
    by (simp add: master_manager_reparse masters_def slaves_def falsy_def)
qed

end
